theory Spec2Isabelle
  imports Main "HOL-Library.AList"
begin

section \<open>The configuration service of ng-config\<close>

text \<open>
  A shallow embedding of \<^verbatim>\<open>src/modules/ng-config/src/config.service.ts\<close>: the option
  binder \<^verbatim>\<open>mapOptionValues\<close>, and the class \<^verbatim>\<open>ConfigService\<close> with its
  operations \<^verbatim>\<open>getValue\<close>, \<^verbatim>\<open>map\<close>, \<^verbatim>\<open>getNormalizedKey\<close> and
  \<^verbatim>\<open>loadInternal\<close>.

  What the embedding covers, and what it leaves out:
  \<^item> A configuration section or an options object is a list of (key, value) pairs with
    distinct keys, in the order of its own properties. Members inherited from
    \<^verbatim>\<open>Object.prototype\<close> and the other prototypes, functions and arrays are not values
    of the model.
  \<^item> Strings are lists of 8-bit characters; case conversion is that of ASCII.
  \<^item> A finite number is a decimal \<open>m * 10^e\<close>, the decimal that
    \<^verbatim>\<open>Number.prototype.toString\<close> prints for it. The code never computes with
    numbers: it compares, parses and prints them. Rounding to binary64 is not modelled,
    and negative zero is not kept apart from zero (the two are \<^verbatim>\<open>===\<close>).
  \<^item> The options instance handed to \<^verbatim>\<open>map\<close> lives in a store, at an address; the
    objects nested in it are part of its value, and are objects other than those of the
    snapshot.
  \<^item> Trace logging (\<^verbatim>\<open>log\<close>) changes nothing of the service and is left out.
\<close>

subsection \<open>Values of the runtime\<close>

datatype jsnum = NaN | PosInfinity | NegInfinity | Finite int int

datatype jsval =
    Undefined
  | Null
  | Bool bool
  | Num jsnum
  | Str string
  | Obj "(string \<times> jsval) list"

type_synonym ConfigSection = "(string \<times> jsval) list"
type_synonym OptionsLike = "(string \<times> jsval) list"

datatype error = TypeError

text \<open>\<^verbatim>\<open>===\<close> on numbers: \<^verbatim>\<open>NaN\<close> equals nothing, itself included.\<close>

fun numEquals :: "jsnum \<Rightarrow> jsnum \<Rightarrow> bool" where
  "numEquals (Finite m e) (Finite m' e') =
     (let d = min e e' in m * 10 ^ nat (e - d) = m' * 10 ^ nat (e' - d))"
| "numEquals PosInfinity PosInfinity = True"
| "numEquals NegInfinity NegInfinity = True"
| "numEquals _ _ = False"

text \<open>
  \<^verbatim>\<open>===\<close> on values. Two objects are equal when they are the same object; an object
  of the options instance and an object of the snapshot never are.
\<close>

fun strictEquals :: "jsval \<Rightarrow> jsval \<Rightarrow> bool" where
  "strictEquals Undefined Undefined = True"
| "strictEquals Null Null = True"
| "strictEquals (Bool a) (Bool b) = (a = b)"
| "strictEquals (Num a) (Num b) = numEquals a b"
| "strictEquals (Str a) (Str b) = (a = b)"
| "strictEquals _ _ = False"

text \<open>\<^verbatim>\<open>v == null\<close>: the value is \<^verbatim>\<open>null\<close> or \<^verbatim>\<open>undefined\<close>.\<close>

fun isNullish :: "jsval \<Rightarrow> bool" where
  "isNullish Undefined = True"
| "isNullish Null = True"
| "isNullish _ = False"

fun isFalsyNumber :: "jsnum \<Rightarrow> bool" where
  "isFalsyNumber NaN = True"
| "isFalsyNumber (Finite m e) = (m = 0)"
| "isFalsyNumber _ = False"

text \<open>The truthiness that \<^verbatim>\<open>&&\<close> and \<^verbatim>\<open>||\<close> test.\<close>

fun truthy :: "jsval \<Rightarrow> bool" where
  "truthy Undefined = False"
| "truthy Null = False"
| "truthy (Bool b) = b"
| "truthy (Num n) = (\<not> isFalsyNumber n)"
| "truthy (Str s) = (s \<noteq> [])"
| "truthy (Obj ps) = True"

subsection \<open>Strings and numbers\<close>

definition lowerChar :: "char \<Rightarrow> char" where
  "lowerChar c =
     (case map_of (zip ''ABCDEFGHIJKLMNOPQRSTUVWXYZ'' ''abcdefghijklmnopqrstuvwxyz'') c of
        Some l \<Rightarrow> l
      | None \<Rightarrow> c)"

definition toLowerCase :: "string \<Rightarrow> string" where
  "toLowerCase s = map lowerChar s"

definition BooleanToString :: "bool \<Rightarrow> string" where
  "BooleanToString b = (if b then ''true'' else ''false'')"

definition digitChar :: "nat \<Rightarrow> char" where
  "digitChar d = ''0123456789abcdef'' ! (d mod 16)"

fun natToDigits :: "nat \<Rightarrow> string" where
  "natToDigits n =
     (if n < 10 then [digitChar n] else natToDigits (n div 10) @ [digitChar (n mod 10)])"

declare natToDigits.simps [simp del]

text \<open>
  \<^verbatim>\<open>Number.prototype.toString\<close> (radix 10) on a positive decimal with digits \<open>ds\<close>
  (no trailing zero) and exponent \<open>e\<close>: positional notation when the decimal point lies
  within 21 digits to the right or 6 to the left, exponent notation otherwise.
\<close>

definition positiveToString :: "string \<Rightarrow> int \<Rightarrow> string" where
  "positiveToString ds e =
     (let k = int (length ds); n = k + e in
      if k \<le> n \<and> n \<le> 21 then ds @ replicate (nat (n - k)) CHR ''0''
      else if 0 < n \<and> n \<le> 21 then take (nat n) ds @ ''.'' @ drop (nat n) ds
      else if - 6 < n \<and> n \<le> 0 then ''0.'' @ replicate (nat (- n)) CHR ''0'' @ ds
      else
        (let ex = (if n - 1 < 0 then ''-'' else ''+'') @ natToDigits (nat \<bar>n - 1\<bar>) in
         if k = 1 then ds @ ''e'' @ ex else take 1 ds @ ''.'' @ drop 1 ds @ ''e'' @ ex))"

definition stripTrailingZeros :: "string \<Rightarrow> string" where
  "stripTrailingZeros ds = rev (dropWhile (\<lambda>c. c = CHR ''0'') (rev ds))"

fun NumberToString :: "jsnum \<Rightarrow> string" where
  "NumberToString NaN = ''NaN''"
| "NumberToString PosInfinity = ''Infinity''"
| "NumberToString NegInfinity = ''-Infinity''"
| "NumberToString (Finite m e) =
     (if m = 0 then ''0''
      else
        (let ds = natToDigits (nat \<bar>m\<bar>);
             ds' = stripTrailingZeros ds;
             t = positiveToString ds' (e + int (length ds) - int (length ds'))
         in if m < 0 then ''-'' @ t else t))"

text \<open>
  \<^verbatim>\<open>Number(s)\<close> on a string: the grammar \<open>StringNumericLiteral\<close> of ECMA-262. White
  space around the literal is dropped; the empty string is 0; a string that is no
  literal is \<^verbatim>\<open>NaN\<close>.
\<close>

definition isStrWhiteSpaceChar :: "char \<Rightarrow> bool" where
  "isStrWhiteSpaceChar c =
     (c \<in> set [CHR 0x09, CHR 0x0A, CHR 0x0B, CHR 0x0C, CHR 0x0D, CHR 0x20])"

definition trimString :: "string \<Rightarrow> string" where
  "trimString s =
     rev (dropWhile isStrWhiteSpaceChar (rev (dropWhile isStrWhiteSpaceChar s)))"

definition digitValue :: "nat \<Rightarrow> char \<Rightarrow> nat option" where
  "digitValue radix c =
     (case map_of (zip ''0123456789abcdef'' [0, 1, 2, 3, 4, 5, 6, 7, 8, 9, 10, 11, 12, 13, 14, 15])
             (lowerChar c) of
        Some d \<Rightarrow> if d < radix then Some d else None
      | None \<Rightarrow> None)"

text \<open>The value of a run of digits, which may be empty; \<open>None\<close> when a character is no digit.\<close>

fun digitsValue :: "nat \<Rightarrow> string \<Rightarrow> nat \<Rightarrow> nat option" where
  "digitsValue radix [] acc = Some acc"
| "digitsValue radix (c # cs) acc =
     (case digitValue radix c of
        None \<Rightarrow> None
      | Some d \<Rightarrow> digitsValue radix cs (acc * radix + d))"

text \<open>Splits a string at the first character that satisfies \<open>P\<close>, if there is one.\<close>

definition splitAtFirst :: "(char \<Rightarrow> bool) \<Rightarrow> string \<Rightarrow> string \<times> string option" where
  "splitAtFirst P s =
     (let a = takeWhile (\<lambda>c. \<not> P c) s; b = dropWhile (\<lambda>c. \<not> P c) s
      in (a, if b = [] then None else Some (tl b)))"

text \<open>\<open>ExponentPart\<close> without its letter: an optional sign and at least one digit.\<close>

definition SignedInteger :: "string \<Rightarrow> int option" where
  "SignedInteger s =
     (let neg = (take 1 s = ''-'');
          ds = (if take 1 s = ''-'' \<or> take 1 s = ''+'' then drop 1 s else s)
      in if ds = [] then None
         else map_option (\<lambda>v. if neg then - int v else int v) (digitsValue 10 ds 0))"

definition StrUnsignedDecimalLiteral :: "string \<Rightarrow> jsnum" where
  "StrUnsignedDecimalLiteral s =
     (if s = ''Infinity'' then PosInfinity
      else
        (let (mantissa, exponent) = splitAtFirst (\<lambda>c. c = CHR ''e'' \<or> c = CHR ''E'') s;
             (intPart, fracPart) = splitAtFirst (\<lambda>c. c = CHR ''.'') mantissa;
             frac = (case fracPart of None \<Rightarrow> [] | Some f \<Rightarrow> f);
             ex = (case exponent of None \<Rightarrow> Some 0 | Some x \<Rightarrow> SignedInteger x)
         in if intPart @ frac = [] then NaN
            else
              (case (digitsValue 10 (intPart @ frac) 0, ex) of
                 (Some m, Some e) \<Rightarrow> Finite (int m) (e - int (length frac))
               | _ \<Rightarrow> NaN)))"

fun negate :: "jsnum \<Rightarrow> jsnum" where
  "negate NaN = NaN"
| "negate PosInfinity = NegInfinity"
| "negate NegInfinity = PosInfinity"
| "negate (Finite m e) = Finite (- m) e"

definition NonDecimalIntegerLiteral :: "nat \<Rightarrow> string \<Rightarrow> jsnum" where
  "NonDecimalIntegerLiteral radix ds =
     (if ds = [] then NaN
      else (case digitsValue radix ds 0 of None \<Rightarrow> NaN | Some v \<Rightarrow> Finite (int v) 0))"

definition StringToNumber :: "string \<Rightarrow> jsnum" where
  "StringToNumber s =
     (let t = trimString s; p = toLowerCase (take 2 t) in
      if t = [] then Finite 0 0
      else if p = ''0x'' then NonDecimalIntegerLiteral 16 (drop 2 t)
      else if p = ''0o'' then NonDecimalIntegerLiteral 8 (drop 2 t)
      else if p = ''0b'' then NonDecimalIntegerLiteral 2 (drop 2 t)
      else if take 1 t = ''-'' then negate (StrUnsignedDecimalLiteral (drop 1 t))
      else if take 1 t = ''+'' then StrUnsignedDecimalLiteral (drop 1 t)
      else StrUnsignedDecimalLiteral t)"

text \<open>
  \<^verbatim>\<open>Number(v)\<close>. An object converts through its inherited \<^verbatim>\<open>toString\<close>, to
  \<^verbatim>\<open>"[object Object]"\<close>, which is no numeric literal.
\<close>

fun ToNumber :: "jsval \<Rightarrow> jsnum" where
  "ToNumber Undefined = NaN"
| "ToNumber Null = Finite 0 0"
| "ToNumber (Bool b) = (if b then Finite 1 0 else Finite 0 0)"
| "ToNumber (Num n) = n"
| "ToNumber (Str s) = StringToNumber s"
| "ToNumber (Obj ps) = NaN"

subsection \<open>\<^verbatim>\<open>JSON.stringify\<close>\<close>

definition quoteJSONChar :: "char \<Rightarrow> string" where
  "quoteJSONChar c =
     (if c = CHR 0x08 then [CHR 0x5C, CHR ''b'']
      else if c = CHR 0x09 then [CHR 0x5C, CHR ''t'']
      else if c = CHR 0x0A then [CHR 0x5C, CHR ''n'']
      else if c = CHR 0x0C then [CHR 0x5C, CHR ''f'']
      else if c = CHR 0x0D then [CHR 0x5C, CHR ''r'']
      else if c = CHR 0x22 then [CHR 0x5C, CHR 0x22]
      else if c = CHR 0x5C then [CHR 0x5C, CHR 0x5C]
      else if (of_char c :: nat) < 32
        then [CHR 0x5C, CHR ''u'', CHR ''0'', CHR ''0'',
              digitChar ((of_char c :: nat) div 16), digitChar ((of_char c :: nat) mod 16)]
      else [c])"

definition QuoteJSONString :: "string \<Rightarrow> string" where
  "QuoteJSONString s = [CHR 0x22] @ concat (map quoteJSONChar s) @ [CHR 0x22]"

fun joinWith :: "string \<Rightarrow> string list \<Rightarrow> string" where
  "joinWith sep [] = []"
| "joinWith sep [x] = x"
| "joinWith sep (x # y # ys) = x @ sep @ joinWith sep (y # ys)"

text \<open>
  \<open>None\<close> is the result \<^verbatim>\<open>undefined\<close>, which \<^verbatim>\<open>JSON.stringify\<close> gives for
  \<^verbatim>\<open>undefined\<close>; a member of an object with that value is left out of the text.
\<close>

fun JSONstringify :: "jsval \<Rightarrow> string option"
  and JSONmembers :: "(string \<times> jsval) list \<Rightarrow> string list" where
  "JSONstringify Undefined = None"
| "JSONstringify Null = Some ''null''"
| "JSONstringify (Bool b) = Some (BooleanToString b)"
| "JSONstringify (Num n) = Some (case n of Finite m e \<Rightarrow> NumberToString n | _ \<Rightarrow> ''null'')"
| "JSONstringify (Str s) = Some (QuoteJSONString s)"
| "JSONstringify (Obj ps) = Some (''{'' @ joinWith '','' (JSONmembers ps) @ ''}'')"
| "JSONmembers [] = []"
| "JSONmembers ((k, v) # ps) =
     (case JSONstringify v of
        None \<Rightarrow> JSONmembers ps
      | Some t \<Rightarrow> (QuoteJSONString k @ '':'' @ t) # JSONmembers ps)"

subsection \<open>The option binder: \<^verbatim>\<open>mapOptionValues\<close>\<close>

text \<open>
  \<^verbatim>\<open>mapOptionValues(options, configSection)\<close> walks the keys of \<open>options\<close> and
  assigns to \<^verbatim>\<open>options[key]\<close>; the function returns the object as the loop leaves it.
  \<open>coerceValue\<close> is the body of the loop for a key that \<open>configSection\<close> has: the
  value that \<^verbatim>\<open>options[key]\<close> holds after the iteration. The branch for a nested
  object calls \<^verbatim>\<open>mapOptionValues\<close> on it and leaves the field pointing to it.
\<close>

fun coerceValue :: "jsval \<Rightarrow> jsval \<Rightarrow> jsval"
  and mapOptionValues :: "OptionsLike \<Rightarrow> ConfigSection \<Rightarrow> OptionsLike" where
  "coerceValue optionsValue configValue =
     (if strictEquals optionsValue configValue then optionsValue
      else if isNullish configValue then Null
      else if isNullish optionsValue then configValue
      else
        (case optionsValue of
           Str x \<Rightarrow>
             (case configValue of
                Str s \<Rightarrow> Str s
              | Num n \<Rightarrow> Str (NumberToString n)
              | Bool b \<Rightarrow> Str (BooleanToString b)
              | _ \<Rightarrow> (case JSONstringify configValue of Some t \<Rightarrow> Str t | None \<Rightarrow> Undefined))
         | Bool x \<Rightarrow>
             (case configValue of
                Str s \<Rightarrow> Bool (toLowerCase s \<in> set [''1'', ''true'', ''on''])
              | Bool b \<Rightarrow> Bool b
              | Num n \<Rightarrow> Bool (numEquals n (Finite 1 0))
              | _ \<Rightarrow> Bool False)
         | Num x \<Rightarrow>
             Num (let n = ToNumber configValue in if isFalsyNumber n then Finite 0 0 else n)
         | Obj nested \<Rightarrow>
             (case configValue of
                Obj section \<Rightarrow> Obj (mapOptionValues nested section)
              | _ \<Rightarrow> optionsValue)
         | _ \<Rightarrow> optionsValue))"
| "mapOptionValues [] configSection = []"
| "mapOptionValues ((key, optionsValue) # rest) configSection =
     (key,
      case map_of configSection key of
        None \<Rightarrow> optionsValue
      | Some configValue \<Rightarrow> coerceValue optionsValue configValue)
     # mapOptionValues rest configSection"

declare coerceValue.simps [simp del]

subsection \<open>The service\<close>

text \<open>
  A provider is an object with a \<^verbatim>\<open>name\<close> and an operation \<^verbatim>\<open>load()\<close>.
  \<open>ident\<close> is the identity of the object: two providers may bear one name.
\<close>

record ConfigProvider =
  name :: string
  ident :: nat

text \<open>
  A fetch is the observable that one call of \<^verbatim>\<open>configProvider.load()\<close> returned,
  piped as \<^verbatim>\<open>loadInternal\<close> pipes it: the provider, and the number of calls of
  \<^verbatim>\<open>load()\<close> made before it, which tells the fetches of one provider apart.
\<close>

type_synonym fetch = "ConfigProvider \<times> nat"

datatype ConfigLoadingContext = StatusLoading | StatusLoaded

type_synonym addr = nat
type_synonym store = "addr \<Rightarrow> OptionsLike"

text \<open>
  The fields of \<^verbatim>\<open>ConfigService\<close>. \<open>loadSubject\<close> holds the values passed to
  \<^verbatim>\<open>loadSubject.next\<close>, oldest first, and \<open>loadCalls\<close> the providers whose
  \<^verbatim>\<open>load()\<close> was called, oldest first.
\<close>

record ConfigService =
  sortedConfigProviders :: "ConfigProvider list"
  fetchRequests :: "string \<rightharpoonup> fetch"
  loading :: bool
  completed :: bool
  cachedConfig :: ConfigSection
  optionsRecord :: "string \<rightharpoonup> addr"
  loadSubject :: "ConfigLoadingContext list"
  loadCalls :: "ConfigProvider list"

text \<open>The constructor: \<^verbatim>\<open>this.sortedConfigProviders = configProviders.reverse()\<close>.\<close>

definition newConfigService :: "ConfigProvider list \<Rightarrow> ConfigService" where
  "newConfigService configProviders =
     \<lparr> sortedConfigProviders = rev configProviders,
       fetchRequests = Map.empty,
       loading = False,
       completed = False,
       cachedConfig = [],
       optionsRecord = Map.empty,
       loadSubject = [],
       loadCalls = [] \<rparr>"

subsection \<open>\<^verbatim>\<open>getValue\<close>\<close>

text \<open>\<^verbatim>\<open>key.split(/\.|:/)\<close>: the empty string splits into one empty segment.\<close>

fun splitKey :: "string \<Rightarrow> string list" where
  "splitKey [] = [[]]"
| "splitKey (c # cs) =
     (if c = CHR ''.'' \<or> c = CHR '':'' then [] # splitKey cs
      else (case splitKey cs of [] \<Rightarrow> [[c]] | w # ws \<Rightarrow> (c # w) # ws))"

text \<open>A key that is the canonical decimal text of a number: an index into a string.\<close>

definition arrayIndex :: "string \<Rightarrow> nat option" where
  "arrayIndex k =
     (if k = [] then None
      else (case digitsValue 10 k 0 of
              None \<Rightarrow> None
            | Some n \<Rightarrow> if natToDigits n = k then Some n else None))"

text \<open>
  \<^verbatim>\<open>acc[current]\<close>. Reading a property of \<^verbatim>\<open>null\<close> or \<^verbatim>\<open>undefined\<close> throws;
  a string has its length and its characters; a number or a boolean has no own property.
\<close>

fun getProperty :: "jsval \<Rightarrow> string \<Rightarrow> error + jsval" where
  "getProperty Undefined current = Inl TypeError"
| "getProperty Null current = Inl TypeError"
| "getProperty (Obj ps) current =
     Inr (case map_of ps current of Some v \<Rightarrow> v | None \<Rightarrow> Undefined)"
| "getProperty (Str s) current =
     Inr (if current = ''length'' then Num (Finite (int (length s)) 0)
          else (case arrayIndex current of
                  Some i \<Rightarrow> if i < length s then Str [s ! i] else Undefined
                | None \<Rightarrow> Undefined))"
| "getProperty (Num n) current = Inr Undefined"
| "getProperty (Bool b) current = Inr Undefined"

text \<open>The callback of the reduction: \<^verbatim>\<open>acc && acc[current]\<close>.\<close>

definition accessor :: "jsval \<Rightarrow> string \<Rightarrow> error + jsval" where
  "accessor acc current = (if truthy acc then getProperty acc current else Inr acc)"

fun reduce :: "('a \<Rightarrow> 'b \<Rightarrow> error + 'a) \<Rightarrow> 'b list \<Rightarrow> 'a \<Rightarrow> error + 'a" where
  "reduce f [] acc = Inr acc"
| "reduce f (x # xs) acc = (case f acc x of Inl e \<Rightarrow> Inl e | Inr acc' \<Rightarrow> reduce f xs acc')"

definition getValue :: "ConfigService \<Rightarrow> string \<Rightarrow> error + jsval" where
  "getValue s key =
     (let keyArray = splitKey key in
      case reduce accessor keyArray (Obj (cachedConfig s)) of
        Inl e \<Rightarrow> Inl e
      | Inr result \<Rightarrow> if result = Undefined then Inr Null else Inr result)"

subsection \<open>\<^verbatim>\<open>getNormalizedKey\<close> and \<^verbatim>\<open>map\<close>\<close>

definition OptionsSuffix :: string where
  "OptionsSuffix = ''Options''"

definition endsWith :: "string \<Rightarrow> string \<Rightarrow> bool" where
  "endsWith s suffix =
     (length suffix \<le> length s \<and> drop (length s - length suffix) s = suffix)"

text \<open>\<^verbatim>\<open>s.substr(start, len)\<close> for a start and a length that are not negative.\<close>

definition substr :: "string \<Rightarrow> nat \<Rightarrow> nat \<Rightarrow> string" where
  "substr s start len = take len (drop start s)"

text \<open>
  \<^verbatim>\<open>normalizedKey[0]\<close> of the empty string is \<^verbatim>\<open>undefined\<close>, and calling
  \<^verbatim>\<open>toLowerCase\<close> on it throws a \<^verbatim>\<open>TypeError\<close>.
\<close>

definition lowerFirst :: "string \<Rightarrow> error + string" where
  "lowerFirst normalizedKey =
     (case normalizedKey of
        [] \<Rightarrow> Inl TypeError
      | c # cs \<Rightarrow> Inr (toLowerCase [c] @ drop 1 normalizedKey))"

definition getNormalizedKey :: "string \<Rightarrow> error + string" where
  "getNormalizedKey className =
     (let normalizedKey =
        (if length className > length OptionsSuffix \<and> endsWith className OptionsSuffix
         then substr className 0 (length className - length OptionsSuffix)
         else className)
      in lowerFirst normalizedKey)"

text \<open>
  \<^verbatim>\<open>map(optionsClass)\<close>. Its arguments in the model are the name of the class and the
  address \<open>optionsObj\<close> of the instance that \<^verbatim>\<open>injector.get\<close> hands out: the
  injector's instance, or the fresh \<^verbatim>\<open>new optionsClass()\<close>. The result is the
  returned reference or the error thrown, with the store and the service as the call
  leaves them.
\<close>

definition map_options ::
  "string \<Rightarrow> addr \<Rightarrow> store \<Rightarrow> ConfigService \<Rightarrow> (error + addr) \<times> store \<times> ConfigService" where
  "map_options className optionsObj h s =
     (case getNormalizedKey className of
        Inl e \<Rightarrow> (Inl e, h, s)
      | Inr normalizedKey \<Rightarrow>
          (let cachedOptions = optionsRecord s normalizedKey in
           if cachedOptions = Some optionsObj then (Inr optionsObj, h, s)
           else
             (let s1 = (if cachedOptions \<noteq> None
                        then s\<lparr>optionsRecord := (optionsRecord s)(normalizedKey := None)\<rparr>
                        else s)
              in case getValue s1 normalizedKey of
                   Inl e \<Rightarrow> (Inl e, h, s1)
                 | Inr (Obj configSection) \<Rightarrow>
                     (Inr optionsObj,
                      h(optionsObj := mapOptionValues (h optionsObj) configSection),
                      s1\<lparr>optionsRecord := (optionsRecord s1)(normalizedKey \<mapsto> optionsObj)\<rparr>)
                 | Inr other \<Rightarrow> (Inr optionsObj, h, s1))))"

subsection \<open>\<^verbatim>\<open>loadInternal\<close>\<close>

text \<open>
  The callback of \<^verbatim>\<open>this.providers.map\<close>: under \<^verbatim>\<open>reload\<close>, or when
  \<^verbatim>\<open>fetchRequests\<close> has no entry for the provider's name, \<^verbatim>\<open>configProvider.load()\<close>
  is called and its fetch stored under the name; the entry under the name is returned.
\<close>

definition requestFetch :: "bool \<Rightarrow> ConfigProvider \<Rightarrow> ConfigService \<Rightarrow> fetch \<times> ConfigService" where
  "requestFetch reload configProvider s =
     (let loaderName = name configProvider in
      case (if reload then None else fetchRequests s loaderName) of
        Some cached \<Rightarrow> (cached, s)
      | None \<Rightarrow>
          (let loaderObs = (configProvider, length (loadCalls s))
           in (loaderObs,
               s\<lparr>loadCalls := loadCalls s @ [configProvider],
                 fetchRequests := (fetchRequests s)(loaderName \<mapsto> loaderObs)\<rparr>)))"

fun requestFetches ::
  "bool \<Rightarrow> ConfigProvider list \<Rightarrow> ConfigService \<Rightarrow> fetch list \<times> ConfigService" where
  "requestFetches reload [] s = ([], s)"
| "requestFetches reload (p # ps) s =
     (let (r, s1) = requestFetch reload p s;
          (rs, s2) = requestFetches reload ps s1
      in (r # rs, s2))"

text \<open>
  The observable that \<^verbatim>\<open>loadInternal\<close> returns: \<^verbatim>\<open>of(this.cachedConfig)\<close>, or the
  pipeline \<^verbatim>\<open>obs$\<close> over the fetches it joins.
\<close>

datatype loadObservable = Of ConfigSection | ForkJoin "fetch list"

text \<open>
  The part of \<^verbatim>\<open>loadInternal\<close> that runs within the call: the fast path, the
  transition to loading with its event, and the requests. The subscription
  \<^verbatim>\<open>obs$.subscribe\<close> made at the end of the call runs when the fetches settle; it is
  \<open>settle\<close> below.
\<close>

definition loadInternal :: "bool \<Rightarrow> ConfigService \<Rightarrow> loadObservable \<times> ConfigService" where
  "loadInternal reload s =
     (if completed s \<and> \<not> reload then (Of (cachedConfig s), s)
      else
        (let s1 = (if \<not> loading s
                   then s\<lparr>loading := True, completed := False,
                          loadSubject := loadSubject s @ [StatusLoading]\<rparr>
                   else s);
             (requests, s2) = requestFetches reload (sortedConfigProviders s1) s1
         in (ForkJoin requests, s2)))"

definition load :: "bool \<Rightarrow> ConfigService \<Rightarrow> loadObservable \<times> ConfigService" where
  "load reLoad s = loadInternal reLoad s"

text \<open>\<^verbatim>\<open>{ ...mergedConfig, ...config }\<close>: the keys of the second overwrite those of the first.\<close>

definition assign :: "ConfigSection \<Rightarrow> ConfigSection \<Rightarrow> ConfigSection" where
  "assign target source = fold (\<lambda>(k, v) obj. AList.update k v obj) source target"

definition spread :: "ConfigSection \<Rightarrow> ConfigSection \<Rightarrow> ConfigSection" where
  "spread mergedConfig config = assign (assign [] mergedConfig) config"

text \<open>The \<^verbatim>\<open>map\<close> operator of the pipeline: the sections merged in the order they come.\<close>

definition mergeConfigs :: "ConfigSection list \<Rightarrow> ConfigSection" where
  "mergeConfigs configs = fold (\<lambda>config mergedConfig. spread mergedConfig config) configs []"

text \<open>
  What an observable delivers to a subscriber: a value, an error, or completion with no
  value.
\<close>

datatype ('e, 'a) notification = Next 'a | Error 'e | Complete

text \<open>
  \<^verbatim>\<open>forkJoin\<close> over the fetches, once they have settled. \<open>outcome\<close> gives what each
  fetch delivered: its section, or its error. With no source at all \<^verbatim>\<open>forkJoin\<close>
  completes without a value; an error of a source is the error of the whole (of the
  errors, the model takes the first in the order of the sources); otherwise the values
  come as a list in the order of the sources.
\<close>

fun collect :: "('e + 'a) list \<Rightarrow> 'e + 'a list" where
  "collect [] = Inr []"
| "collect (Inl e # rs) = Inl e"
| "collect (Inr v # rs) = (case collect rs of Inl e \<Rightarrow> Inl e | Inr vs \<Rightarrow> Inr (v # vs))"

definition forkJoin ::
  "(fetch \<Rightarrow> 'e + ConfigSection) \<Rightarrow> fetch list \<Rightarrow> ('e, ConfigSection list) notification" where
  "forkJoin outcome requests =
     (if requests = [] then Complete
      else (case collect (map outcome requests) of
              Inl e \<Rightarrow> Error e
            | Inr configs \<Rightarrow> Next configs))"

text \<open>
  The pipeline \<^verbatim>\<open>obs$\<close>, run for one subscriber: \<^verbatim>\<open>forkJoin\<close>, the merge, and the
  \<^verbatim>\<open>tap\<close> that stores the snapshot and clears the bound options.
\<close>

definition pipeline ::
  "(fetch \<Rightarrow> 'e + ConfigSection) \<Rightarrow> fetch list \<Rightarrow> ConfigService \<Rightarrow>
     ('e, ConfigSection) notification \<times> ConfigService" where
  "pipeline outcome requests s =
     (case forkJoin outcome requests of
        Next configs \<Rightarrow>
          (let mergedConfig = mergeConfigs configs
           in (Next mergedConfig, s\<lparr>cachedConfig := mergedConfig, optionsRecord := Map.empty\<rparr>))
      | Error e \<Rightarrow> (Error e, s)
      | Complete \<Rightarrow> (Complete, s))"

text \<open>The two callbacks of \<^verbatim>\<open>obs$.subscribe\<close> in \<^verbatim>\<open>loadInternal\<close>.\<close>

definition subscriber :: "('e, ConfigSection) notification \<Rightarrow> ConfigService \<Rightarrow> ConfigService" where
  "subscriber n s =
     (case n of
        Next config \<Rightarrow>
          s\<lparr>completed := True, loading := False,
            loadSubject := loadSubject s @ [StatusLoaded]\<rparr>
      | Error e \<Rightarrow> s\<lparr>completed := False, loading := False\<rparr>
      | Complete \<Rightarrow> s)"

text \<open>The subscription of \<^verbatim>\<open>loadInternal\<close> to \<^verbatim>\<open>obs$\<close>, when its fetches have settled.\<close>

definition settle ::
  "(fetch \<Rightarrow> 'e + ConfigSection) \<Rightarrow> fetch list \<Rightarrow> ConfigService \<Rightarrow>
     ('e, ConfigSection) notification \<times> ConfigService" where
  "settle outcome requests s =
     (let (n, s1) = pipeline outcome requests s in (n, subscriber n s1))"

text \<open>
  The caller's own subscription to the observable that \<^verbatim>\<open>load\<close> returned: the
  pipeline runs once more for it, without the callbacks of the service.
\<close>

definition subscribe ::
  "(fetch \<Rightarrow> 'e + ConfigSection) \<Rightarrow> loadObservable \<Rightarrow> ConfigService \<Rightarrow>
     ('e, ConfigSection) notification \<times> ConfigService" where
  "subscribe outcome obs s =
     (case obs of
        Of config \<Rightarrow> (Next config, s)
      | ForkJoin requests \<Rightarrow> pipeline outcome requests s)"

text \<open>
  One load cycle with no other call in between: the call of \<^verbatim>\<open>load\<close>, then the
  fetches settle with \<open>outcome\<close>.
\<close>

definition loadCycle ::
  "(fetch \<Rightarrow> 'e + ConfigSection) \<Rightarrow> bool \<Rightarrow> ConfigService \<Rightarrow>
     ('e, ConfigSection) notification \<times> ConfigService" where
  "loadCycle outcome reLoad s =
     (case load reLoad s of
        (Of config, s1) \<Rightarrow> (Next config, s1)
      | (ForkJoin requests, s1) \<Rightarrow> settle outcome requests s1)"

section \<open>Properties\<close>

subsection \<open>The normalized section name\<close>

lemma getNormalizedKey_strip:
  "getNormalizedKey ((c # cs) @ ''Options'') = Inr (lowerChar c # cs)"
  by (simp add: getNormalizedKey_def OptionsSuffix_def endsWith_def substr_def lowerFirst_def
      toLowerCase_def)

lemma getNormalizedKey_keep:
  assumes "\<forall>stem. stem \<noteq> [] \<longrightarrow> c # cs \<noteq> stem @ ''Options''"
  shows "getNormalizedKey (c # cs) = Inr (lowerChar c # cs)"
proof -
  have "\<not> (length (c # cs) > length OptionsSuffix \<and> endsWith (c # cs) OptionsSuffix)"
  proof
    assume a: "length (c # cs) > length OptionsSuffix \<and> endsWith (c # cs) OptionsSuffix"
    let ?n = "length (c # cs) - length OptionsSuffix"
    have "c # cs = take ?n (c # cs) @ drop ?n (c # cs)" by simp
    moreover have "drop ?n (c # cs) = ''Options''"
      using a by (simp add: endsWith_def OptionsSuffix_def)
    moreover have "take ?n (c # cs) \<noteq> []"
      using a by (auto simp: OptionsSuffix_def)
    ultimately show False using assms by metis
  qed
  then show ?thesis
    by (auto simp add: getNormalizedKey_def lowerFirst_def toLowerCase_def)
qed

lemma getNormalizedKey_Options: "getNormalizedKey ''Options'' = Inr ''options''"
  by (simp add: getNormalizedKey_def OptionsSuffix_def endsWith_def substr_def lowerFirst_def
      toLowerCase_def lowerChar_def)

lemma getNormalizedKey_AppOptions: "getNormalizedKey ''AppOptions'' = Inr ''app''"
  using getNormalizedKey_strip [of "CHR ''A''" "''pp''"] by (simp add: lowerChar_def)

text \<open>A class with no name, as an anonymous class expression is, makes the call throw.\<close>

lemma getNormalizedKey_empty: "getNormalizedKey [] = Inl TypeError"
  by (simp add: getNormalizedKey_def OptionsSuffix_def endsWith_def substr_def lowerFirst_def)



subsection \<open>The path accessor\<close>

lemma accessor_no_error: "accessor acc current \<noteq> Inl e"
  by (cases acc) (auto simp: accessor_def)

lemma reduce_accessor_no_error: "reduce accessor ks acc \<noteq> Inl e"
proof (induction ks arbitrary: acc)
  case Nil
  then show ?case by simp
next
  case (Cons k ks)
  then show ?case
    by (cases "accessor acc k") (auto simp: accessor_no_error)
qed

text \<open>\<^verbatim>\<open>getValue\<close> throws for no key and no snapshot.\<close>

lemma getValue_no_error: "getValue s key \<noteq> Inl e"
  using reduce_accessor_no_error [of "splitKey key" "Obj (cachedConfig s)" e]
  by (auto simp: getValue_def split: sum.splits)

lemma getValue_cachedConfig:
  "cachedConfig s' = cachedConfig s \<Longrightarrow> getValue s' key = getValue s key"
  by (simp add: getValue_def)

text \<open>
  C5. The specification has \<^verbatim>\<open>getValue\<close> return \<^verbatim>\<open>null\<close> once the value reached
  at an intermediate segment cannot be traversed. With the snapshot \<^verbatim>\<open>{a: 0}\<close> and the path
  \<^verbatim>\<open>a.b\<close> the reduction stops at the number 0, which \<^verbatim>\<open>acc && acc[current]\<close>
  hands on as it is, and \<^verbatim>\<open>getValue\<close> returns 0: only \<^verbatim>\<open>undefined\<close> is turned
  into \<^verbatim>\<open>null\<close>.
\<close>

theorem getValue_falsy_intermediate:
  "getValue ((newConfigService []) \<lparr>cachedConfig := [(''a'', Num (Finite 0 0))]\<rparr>) ''a.b''
     = Inr (Num (Finite 0 0))"
  by (simp add: getValue_def accessor_def newConfigService_def)

subsection \<open>Loading\<close>

lemma requestFetch_frame:
  "requestFetch reload p s = (r, s') \<Longrightarrow>
     cachedConfig s' = cachedConfig s \<and> optionsRecord s' = optionsRecord s \<and>
     loading s' = loading s \<and> completed s' = completed s \<and>
     loadSubject s' = loadSubject s \<and> sortedConfigProviders s' = sortedConfigProviders s"
  by (auto simp: requestFetch_def Let_def split: option.splits if_splits)

lemma requestFetches_frame:
  "requestFetches reload ps s = (rs, s') \<Longrightarrow>
     cachedConfig s' = cachedConfig s \<and> optionsRecord s' = optionsRecord s \<and>
     loading s' = loading s \<and> completed s' = completed s \<and>
     loadSubject s' = loadSubject s \<and> sortedConfigProviders s' = sortedConfigProviders s"
proof (induction ps arbitrary: s rs s')
  case Nil
  then show ?case by simp
next
  case (Cons p ps)
  obtain r s1 where a: "requestFetch reload p s = (r, s1)"
    by (cases "requestFetch reload p s")
  obtain rs' s2 where b: "requestFetches reload ps s1 = (rs', s2)"
    by (cases "requestFetches reload ps s1")
  from Cons.prems a b have "s' = s2" by simp
  with Cons.IH [OF b] requestFetch_frame [OF a] show ?case by simp
qed

lemma collect_error:
  "r \<in> set rs \<Longrightarrow> outcome r = Inl e0 \<Longrightarrow> \<exists>e. collect (map outcome rs) = Inl e"
proof (induction rs)
  case Nil
  then show ?case by simp
next
  case (Cons a rs)
  show ?case
  proof (cases "outcome a")
    case (Inl e)
    then show ?thesis by simp
  next
    case (Inr v)
    with Cons have "r \<in> set rs" by auto
    with Cons obtain e where "collect (map outcome rs) = Inl e" by blast
    with Inr show ?thesis by simp
  qed
qed

text \<open>A call of \<^verbatim>\<open>load\<close> leaves the snapshot and the bound options as they are.\<close>

lemma load_frame:
  assumes "load reLoad s = (obs, s1)"
  shows "cachedConfig s1 = cachedConfig s \<and> optionsRecord s1 = optionsRecord s"
proof (cases "completed s \<and> \<not> reLoad")
  case True
  with assms show ?thesis by (auto simp: load_def loadInternal_def)
next
  case False
  define s0 where "s0 = (if \<not> loading s
                   then s\<lparr>loading := True, completed := False,
                          loadSubject := loadSubject s @ [StatusLoading]\<rparr>
                   else s)"
  obtain rs s2 where b: "requestFetches reLoad (sortedConfigProviders s0) s0 = (rs, s2)"
    by (cases "requestFetches reLoad (sortedConfigProviders s0) s0")
  from assms False b have "s1 = s2"
    by (simp add: load_def loadInternal_def s0_def Let_def)
  moreover have "cachedConfig s0 = cachedConfig s \<and> optionsRecord s0 = optionsRecord s"
    by (simp add: s0_def)
  ultimately show ?thesis using requestFetches_frame [OF b] by simp
qed

lemma settle_failure:
  assumes "r \<in> set requests" and "outcome r = Inl e0"
  shows "\<exists>e. settle outcome requests s = (Error e, s\<lparr>completed := False, loading := False\<rparr>)
           \<and> pipeline outcome requests s = (Error e, s)"
proof -
  from collect_error [of r requests outcome e0] assms
  obtain e where "collect (map outcome requests) = Inl e" by auto
  moreover from assms have "requests \<noteq> []" by auto
  ultimately show ?thesis
    by (simp add: settle_def pipeline_def forkJoin_def subscriber_def)
qed

text \<open>
  C2. Take a load cycle: a call of \<^verbatim>\<open>load\<close> that joins the fetches \<open>requests\<close>, one
  of which fails. When the fetches have settled, the subscription of the service
  receives an error; \<open>loading\<close> and \<open>completed\<close> are both false; the snapshot is the
  one from before the call, and so is every answer of \<^verbatim>\<open>getValue\<close>; the bound options
  are kept; no status event is emitted at the failure; and the caller's own subscription
  to the returned observable receives an error too and changes nothing.
\<close>

theorem load_failure:
  assumes "load reLoad s = (ForkJoin requests, s1)"
      and "r \<in> set requests" and "outcome r = Inl e0"
      and "settle outcome requests s1 = (n, s2)"
  shows "(\<exists>e. n = Error e) \<and> \<not> loading s2 \<and> \<not> completed s2
         \<and> cachedConfig s2 = cachedConfig s
         \<and> (\<forall>key. getValue s2 key = getValue s key)
         \<and> optionsRecord s2 = optionsRecord s
         \<and> loadSubject s2 = loadSubject s1
         \<and> (\<exists>e. subscribe outcome (ForkJoin requests) s2 = (Error e, s2))"
proof -
  from settle_failure [of r requests outcome e0 s1] assms
  obtain e where n: "n = Error e" and s2: "s2 = s1\<lparr>completed := False, loading := False\<rparr>"
    by auto
  from load_frame [OF assms(1)]
  have c: "cachedConfig s2 = cachedConfig s" and o: "optionsRecord s2 = optionsRecord s"
    by (simp_all add: s2)
  from settle_failure [of r requests outcome e0 s2] assms
  have "\<exists>e. subscribe outcome (ForkJoin requests) s2 = (Error e, s2)"
    by (auto simp: subscribe_def)
  moreover have "\<forall>key. getValue s2 key = getValue s key"
    using c by (simp add: getValue_def)
  moreover have "loadSubject s2 = loadSubject s1 \<and> \<not> loading s2 \<and> \<not> completed s2"
    by (simp add: s2)
  ultimately show ?thesis using n c o by blast
qed

theorem load_failure_witness:
  "load False (newConfigService [\<lparr>name = ''file'', ident = 0\<rparr>, \<lparr>name = ''http'', ident = 1\<rparr>])
     = (ForkJoin [(\<lparr>name = ''http'', ident = 1\<rparr>, 0), (\<lparr>name = ''file'', ident = 0\<rparr>, 1)],
        snd (load False
          (newConfigService [\<lparr>name = ''file'', ident = 0\<rparr>, \<lparr>name = ''http'', ident = 1\<rparr>])))
   \<and> fst (settle
         (\<lambda>r. if name (fst r) = ''http'' then Inl ''unreachable'' else Inr [(''a'', Str ''b'')])
         [(\<lparr>name = ''http'', ident = 1\<rparr>, 0), (\<lparr>name = ''file'', ident = 0\<rparr>, 1)]
         (snd (load False
           (newConfigService [\<lparr>name = ''file'', ident = 0\<rparr>, \<lparr>name = ''http'', ident = 1\<rparr>]))))
       = Error ''unreachable''
   \<and> cachedConfig (snd (settle
         (\<lambda>r. if name (fst r) = ''http'' then Inl ''unreachable'' else Inr [(''a'', Str ''b'')])
         [(\<lparr>name = ''http'', ident = 1\<rparr>, 0), (\<lparr>name = ''file'', ident = 0\<rparr>, 1)]
         (snd (load False
           (newConfigService [\<lparr>name = ''file'', ident = 0\<rparr>, \<lparr>name = ''http'', ident = 1\<rparr>])))))
       = []"
proof -
  let ?ps = "[\<lparr>name = ''file'', ident = 0\<rparr>, \<lparr>name = ''http'', ident = 1\<rparr>]"
  let ?rs = "[(\<lparr>name = ''http'', ident = 1\<rparr>, 0 :: nat), (\<lparr>name = ''file'', ident = 0\<rparr>, 1)]"
  let ?out = "\<lambda>r :: fetch. if name (fst r) = ''http'' then Inl ''unreachable''
                else (Inr [(''a'', Str ''b'')] :: string + ConfigSection)"
  let ?s1 = "snd (load False (newConfigService ?ps))"
  have a: "load False (newConfigService ?ps) = (ForkJoin ?rs, ?s1)"
    by (simp add: load_def loadInternal_def newConfigService_def requestFetch_def Let_def)
  have b: "(\<lparr>name = ''http'', ident = 1\<rparr>, 0) \<in> set ?rs" by simp
  have c: "?out (\<lparr>name = ''http'', ident = 1\<rparr>, 0) = Inl ''unreachable''" by simp
  have d: "settle ?out ?rs ?s1 = (fst (settle ?out ?rs ?s1), snd (settle ?out ?rs ?s1))"
    by simp
  have e: "fst (settle ?out ?rs ?s1) = Error ''unreachable''"
    by (simp add: settle_def pipeline_def forkJoin_def)
  from load_failure [OF a b c d] a e show ?thesis
    by (simp add: newConfigService_def)
qed

lemma loadCycle_example:
  "loadCycle (\<lambda>r. Inr [(''a'', Str ''b'')]) False
     (newConfigService [\<lparr>name = ''env'', ident = 0\<rparr>])
   = (Next [(''a'', Str ''b'')],
      \<lparr> sortedConfigProviders = [\<lparr>name = ''env'', ident = 0\<rparr>],
        fetchRequests = [''env'' \<mapsto> (\<lparr>name = ''env'', ident = 0\<rparr>, 0)],
        loading = False,
        completed = True,
        cachedConfig = [(''a'', Str ''b'')],
        optionsRecord = Map.empty,
        loadSubject = [StatusLoading, StatusLoaded],
        loadCalls = [\<lparr>name = ''env'', ident = 0\<rparr>] \<rparr>)"
  by (simp add: loadCycle_def load_def loadInternal_def newConfigService_def requestFetch_def
      settle_def pipeline_def forkJoin_def subscriber_def mergeConfigs_def spread_def assign_def
      Let_def)

text \<open>
  C4. In a state where a load has completed, \<^verbatim>\<open>load(false)\<close> returns the observable
  of the cached snapshot and leaves the service as it is: no \<^verbatim>\<open>load()\<close> of a provider
  is called and no status event is emitted. A subscriber of the returned observable
  receives the cached snapshot, and the service is unchanged again.
\<close>

theorem load_completed_fast_path:
  "completed s \<Longrightarrow>
     load False s = (Of (cachedConfig s), s)
     \<and> loadCalls (snd (load False s)) = loadCalls s
     \<and> loadSubject (snd (load False s)) = loadSubject s
     \<and> subscribe outcome (fst (load False s)) (snd (load False s)) = (Next (cachedConfig s), s)"
  by (simp add: load_def loadInternal_def subscribe_def)

theorem load_completed_fast_path_witness:
  "completed (snd (loadCycle (\<lambda>r. Inr [(''a'', Str ''b'')] :: unit + ConfigSection) False
      (newConfigService [\<lparr>name = ''env'', ident = 0\<rparr>])))
   \<and> fst (load False (snd (loadCycle (\<lambda>r. Inr [(''a'', Str ''b'')] :: unit + ConfigSection) False
      (newConfigService [\<lparr>name = ''env'', ident = 0\<rparr>]))))
       = Of [(''a'', Str ''b'')]"
  using load_completed_fast_path
    [of "snd (loadCycle (\<lambda>r. Inr [(''a'', Str ''b'')] :: unit + ConfigSection) False
           (newConfigService [\<lparr>name = ''env'', ident = 0\<rparr>]))"
        "\<lambda>r. Inr [] :: unit + ConfigSection"]
  by (simp add: loadCycle_example)

subsection \<open>The merge order\<close>

lemma assign_lookup: "map_of (assign target source) = map_of target ++ map_of (rev source)"
proof (induction source arbitrary: target)
  case Nil
  then show ?case by (simp add: assign_def)
next
  case (Cons kv source)
  obtain k v where kv: "kv = (k, v)" by (cases kv)
  have "map_of (assign target (kv # source)) = map_of (assign (AList.update k v target) source)"
    by (simp add: assign_def kv)
  also have "\<dots> = map_of (AList.update k v target) ++ map_of (rev source)"
    by (rule Cons.IH)
  also have "\<dots> = map_of target ++ map_of (rev (kv # source))"
    by (simp add: kv update_conv' map_add_upd_left fun_eq_iff map_add_def split: option.splits)
  finally show ?case .
qed

lemma assign_distinct:
  "distinct (map fst target) \<Longrightarrow> distinct (map fst (assign target source))"
proof (induction source arbitrary: target)
  case Nil
  then show ?case by (simp add: assign_def)
next
  case (Cons kv source)
  obtain k v where kv: "kv = (k, v)" by (cases kv)
  have "assign target (kv # source) = assign (AList.update k v target) source"
    by (simp add: assign_def kv)
  with Cons show ?case by (simp add: distinct_update)
qed

lemma map_of_rev_distinct:
  assumes "distinct (map fst xs)"
  shows "map_of (rev xs) = map_of xs"
proof (rule ext)
  fix k
  have d: "distinct (map fst (rev xs))" using assms by (simp add: rev_map [symmetric])
  show "map_of (rev xs) k = map_of xs k"
  proof (cases "map_of xs k")
    case None
    then have "map_of (rev xs) k = None" by (simp add: map_of_eq_None_iff)
    with None show ?thesis by simp
  next
    case (Some v)
    then have "(k, v) \<in> set (rev xs)" by (auto dest: map_of_SomeD)
    with d have "map_of (rev xs) k = Some v" by (simp only: map_of_eq_Some_iff)
    with Some show ?thesis by simp
  qed
qed

lemma spread_distinct: "distinct (map fst (spread m c))"
  by (simp add: spread_def assign_distinct)

lemma spread_lookup:
  assumes "distinct (map fst m)" and "distinct (map fst c)"
  shows "map_of (spread m c) = map_of m ++ map_of c"
  using assms by (simp add: spread_def assign_lookup map_of_rev_distinct)

lemma mergeConfigs_snoc: "mergeConfigs (cs @ [c]) = spread (mergeConfigs cs) c"
  by (simp add: mergeConfigs_def)

lemma mergeConfigs_distinct: "distinct (map fst (mergeConfigs cs))"
  by (induction cs rule: rev_induct) (simp_all add: mergeConfigs_snoc spread_distinct, simp add: mergeConfigs_def)

lemma mergeConfigs_lookup:
  assumes "\<forall>p\<in>set ps. distinct (map fst (f p))"
  shows "map_of (mergeConfigs (map f (rev ps))) k =
           (case find (\<lambda>p. map_of (f p) k \<noteq> None) ps of
              None \<Rightarrow> None
            | Some p \<Rightarrow> map_of (f p) k)"
  using assms
proof (induction ps)
  case Nil
  then show ?case by (simp add: mergeConfigs_def)
next
  case (Cons p ps)
  have "map_of (mergeConfigs (map f (rev (p # ps)))) k
          = (map_of (mergeConfigs (map f (rev ps))) ++ map_of (f p)) k"
    using Cons.prems by (simp add: mergeConfigs_snoc spread_lookup mergeConfigs_distinct)
  with Cons show ?case by (auto simp: map_add_def split: option.splits)
qed

lemma requestFetches_reload_fst: "requestFetches True ps s = (rs, s') \<Longrightarrow> map fst rs = ps"
proof (induction ps arbitrary: s rs s')
  case Nil
  then show ?case by simp
next
  case (Cons p ps)
  obtain r s1 where a: "requestFetch True p s = (r, s1)" by (cases "requestFetch True p s")
  obtain rs' s2 where b: "requestFetches True ps s1 = (rs', s2)"
    by (cases "requestFetches True ps s1")
  from a have "fst r = p" by (auto simp: requestFetch_def Let_def)
  with Cons.prems a b Cons.IH [OF b] show ?case by auto
qed

lemma requestFetches_own_fst:
  assumes "distinct (map name ps)"
      and "\<forall>p\<in>set ps. \<forall>q i. fetchRequests s (name p) = Some (q, i) \<longrightarrow> q = p"
      and "requestFetches False ps s = (rs, s')"
  shows "map fst rs = ps"
  using assms
proof (induction ps arbitrary: s rs s')
  case Nil
  then show ?case by simp
next
  case (Cons p ps)
  obtain r s1 where a: "requestFetch False p s = (r, s1)" by (cases "requestFetch False p s")
  obtain rs' s2 where b: "requestFetches False ps s1 = (rs', s2)"
    by (cases "requestFetches False ps s1")
  have r: "fst r = p"
  proof (cases "fetchRequests s (name p)")
    case None
    with a show ?thesis by (auto simp: requestFetch_def Let_def)
  next
    case (Some c)
    obtain q i where c: "c = (q, i)" by (cases c)
    from Some c Cons.prems(2) have "q = p" by auto
    with a Some c show ?thesis by (auto simp: requestFetch_def Let_def)
  qed
  have "\<forall>p'\<in>set ps. \<forall>q i. fetchRequests s1 (name p') = Some (q, i) \<longrightarrow> q = p'"
  proof (intro ballI allI impI)
    fix p' q i
    assume p': "p' \<in> set ps" and f: "fetchRequests s1 (name p') = Some (q, i)"
    from p' Cons.prems(1) have "name p' \<noteq> name p" by (force simp: image_iff)
    with a f have "fetchRequests s (name p') = Some (q, i)"
      by (cases "fetchRequests s (name p)") (auto simp: requestFetch_def Let_def)
    with p' Cons.prems(2) show "q = p'" by auto
  qed
  with Cons.IH [OF _ _ b] Cons.prems(1) have "map fst rs' = ps" by simp
  with Cons.prems(3) a b r show ?case by auto
qed

lemma collect_success:
  assumes "map fst rs = ps" and "\<forall>p\<in>set ps. \<forall>i. outcome (p, i) = Inr (f p)"
  shows "collect (map outcome rs) = Inr (map f ps)"
  using assms
proof (induction rs arbitrary: ps)
  case Nil
  then show ?case by simp
next
  case (Cons r rs)
  obtain p i where r: "r = (p, i)" by (cases r)
  from Cons.prems r obtain ps' where ps: "ps = p # ps'" and m: "map fst rs = ps'" by auto
  from Cons.prems ps have "outcome (p, i) = Inr (f p)" by simp
  moreover from Cons.IH [OF m] Cons.prems(2) ps have "collect (map outcome rs) = Inr (map f ps')"
    by simp
  ultimately show ?case by (simp add: r ps)
qed

lemma settle_success:
  assumes "requests \<noteq> []" and "collect (map outcome requests) = Inr configs"
  shows "settle outcome requests s =
           (Next (mergeConfigs configs),
            s\<lparr>cachedConfig := mergeConfigs configs, optionsRecord := Map.empty,
              completed := True, loading := False,
              loadSubject := loadSubject s @ [StatusLoaded]\<rparr>)"
  using assms by (simp add: settle_def pipeline_def forkJoin_def subscriber_def Let_def)

lemma load_requests:
  assumes "sortedConfigProviders s = rev configProviders"
      and "reLoad \<or> (\<not> completed s \<and> distinct (map name configProviders)
             \<and> (\<forall>p\<in>set configProviders. \<forall>q i. fetchRequests s (name p) = Some (q, i) \<longrightarrow> q = p))"
  shows "\<exists>requests s1. load reLoad s = (ForkJoin requests, s1)
           \<and> map fst requests = rev configProviders"
proof -
  define s0 where "s0 = (if \<not> loading s
                   then s\<lparr>loading := True, completed := False,
                          loadSubject := loadSubject s @ [StatusLoading]\<rparr>
                   else s)"
  obtain rs s2 where b: "requestFetches reLoad (rev configProviders) s0 = (rs, s2)"
    by (cases "requestFetches reLoad (rev configProviders) s0")
  have p: "sortedConfigProviders s0 = rev configProviders" and f: "fetchRequests s0 = fetchRequests s"
    using assms(1) by (simp_all add: s0_def)
  from assms(2) have np: "\<not> (completed s \<and> \<not> reLoad)" by auto
  have l: "load reLoad s = (ForkJoin rs, s2)"
    using np b p by (simp add: load_def loadInternal_def s0_def [symmetric] Let_def)
  have "map fst rs = rev configProviders"
  proof (cases reLoad)
    case True
    with b show ?thesis using requestFetches_reload_fst by simp
  next
    case False
    with assms(2) have d: "distinct (map name (rev configProviders))"
      and o: "\<forall>p\<in>set (rev configProviders). \<forall>q i. fetchRequests s0 (name p) = Some (q, i) \<longrightarrow> q = p"
      by (simp_all add: f rev_map [symmetric])
    from b False have "requestFetches False (rev configProviders) s0 = (rs, s2)" by simp
    from requestFetches_own_fst [OF d o this] show ?thesis .
  qed
  with l show ?thesis by blast
qed




subsection \<open>Calls of \<^verbatim>\<open>load\<close> before the fetches settle\<close>

lemma requestFetch_cached:
  "fetchRequests s (name p) = Some r \<Longrightarrow> requestFetch False p s = (r, s)"
  by (simp add: requestFetch_def)

lemma requestFetch_fresh:
  "reload \<or> fetchRequests s (name p) = None \<Longrightarrow>
     requestFetch reload p s =
       ((p, length (loadCalls s)),
        s\<lparr>loadCalls := loadCalls s @ [p],
          fetchRequests := (fetchRequests s)(name p \<mapsto> (p, length (loadCalls s)))\<rparr>)"
  by (auto simp: requestFetch_def Let_def)

lemma requestFetches_cached:
  "\<forall>p\<in>set ps. fetchRequests s (name p) \<noteq> None \<Longrightarrow>
     requestFetches False ps s = (map (\<lambda>p. the (fetchRequests s (name p))) ps, s)"
  by (induction ps) (auto simp: requestFetch_def)

lemma requestFetches_mono:
  "requestFetches False ps s = (rs, s') \<Longrightarrow> fetchRequests s n = Some r \<Longrightarrow>
     fetchRequests s' n = Some r"
proof (induction ps arbitrary: s rs s')
  case Nil
  then show ?case by simp
next
  case (Cons p ps)
  obtain r1 s1 where a: "requestFetch False p s = (r1, s1)" by (cases "requestFetch False p s")
  obtain rs' s2 where b: "requestFetches False ps s1 = (rs', s2)"
    by (cases "requestFetches False ps s1")
  from a Cons.prems(2) have "fetchRequests s1 n = Some r"
    by (cases "fetchRequests s (name p)") (auto simp: requestFetch_def Let_def)
  from Cons.IH [OF b this] Cons.prems(1) a b show ?case by simp
qed

lemma requestFetches_result:
  "requestFetches False ps s = (rs, s') \<Longrightarrow>
     rs = map (\<lambda>p. the (fetchRequests s' (name p))) ps"
proof (induction ps arbitrary: s rs s')
  case Nil
  then show ?case by simp
next
  case (Cons p ps)
  obtain r1 s1 where a: "requestFetch False p s = (r1, s1)" by (cases "requestFetch False p s")
  obtain rs' s2 where b: "requestFetches False ps s1 = (rs', s2)"
    by (cases "requestFetches False ps s1")
  from a have "fetchRequests s1 (name p) = Some r1"
    by (cases "fetchRequests s (name p)") (auto simp: requestFetch_def Let_def)
  from requestFetches_mono [OF b this] have r1: "the (fetchRequests s2 (name p)) = r1" by simp
  from Cons.prems a b have e: "rs = r1 # rs'" "s' = s2" by simp_all
  from Cons.IH [OF b] have "rs' = map (\<lambda>p. the (fetchRequests s2 (name p))) ps" .
  with e r1 show ?case by simp
qed

lemma requestFetches_first:
  assumes "distinct (map name ps)"
      and "\<forall>p\<in>set ps. fetchRequests s (name p) = None"
      and "requestFetches False ps s = (rs, s')"
  shows "loadCalls s' = loadCalls s @ ps \<and> (\<forall>p\<in>set ps. fetchRequests s' (name p) \<noteq> None)"
  using assms
proof (induction ps arbitrary: s rs s')
  case Nil
  then show ?case by simp
next
  case (Cons p ps)
  obtain r1 s1 where a: "requestFetch False p s = (r1, s1)" by (cases "requestFetch False p s")
  obtain rs' s2 where b: "requestFetches False ps s1 = (rs', s2)"
    by (cases "requestFetches False ps s1")
  from Cons.prems(2) have n: "fetchRequests s (name p) = None" by simp
  with a have s1: "loadCalls s1 = loadCalls s @ [p]"
    and f1: "fetchRequests s1 = (fetchRequests s)(name p \<mapsto> r1)"
    by (auto simp: requestFetch_def Let_def)
  have "\<forall>q\<in>set ps. fetchRequests s1 (name q) = None"
  proof
    fix q
    assume q: "q \<in> set ps"
    with Cons.prems(1) have "name q \<noteq> name p" by (force simp: image_iff)
    with q Cons.prems(2) f1 show "fetchRequests s1 (name q) = None" by simp
  qed
  with Cons.IH [OF _ _ b] Cons.prems(1)
  have ih: "loadCalls s2 = loadCalls s1 @ ps \<and> (\<forall>q\<in>set ps. fetchRequests s2 (name q) \<noteq> None)"
    by simp
  from f1 have "fetchRequests s1 (name p) = Some r1" by simp
  from requestFetches_mono [OF b this] have "fetchRequests s2 (name p) \<noteq> None" by simp
  with ih s1 Cons.prems(3) a b show ?case by auto
qed

lemma count_list_distinct:
  "distinct xs \<Longrightarrow> x \<in> set xs \<Longrightarrow> count_list xs x = 1"
  by (induction xs) auto




subsection \<open>The coercion of a field\<close>

lemma mapOptionValues_keys: "map fst (mapOptionValues options configSection) = map fst options"
  by (induction options) auto

lemma mapOptionValues_lookup:
  "map_of (mapOptionValues options configSection) key =
     (case map_of options key of
        None \<Rightarrow> None
      | Some ov \<Rightarrow>
          (case map_of configSection key of
             None \<Rightarrow> Some ov
           | Some cv \<Rightarrow> Some (coerceValue ov cv)))"
  by (induction options) (auto split: option.splits)

lemma coerce_equal: "strictEquals ov cv \<Longrightarrow> coerceValue ov cv = ov"
  by (simp add: coerceValue.simps)

lemma coerce_section_null:
  "\<not> strictEquals ov cv \<Longrightarrow> isNullish cv \<Longrightarrow> coerceValue ov cv = Null"
  by (simp add: coerceValue.simps)

lemma coerce_default_null:
  "\<not> isNullish cv \<Longrightarrow> isNullish ov \<Longrightarrow> coerceValue ov cv = cv"
  by (cases ov; cases cv) (simp_all add: coerceValue.simps)

lemma coerce_string:
  "coerceValue (Str x) (Str s) = Str s"
  "coerceValue (Str x) (Num n) = Str (NumberToString n)"
  "coerceValue (Str x) (Bool b) = Str (BooleanToString b)"
  "coerceValue (Str x) (Obj c) =
     Str (''{'' @ joinWith '','' (JSONmembers c) @ ''}'')"
  by (simp_all add: coerceValue.simps)

lemma coerce_boolean:
  "coerceValue (Bool y) (Str s) = Bool (toLowerCase s \<in> {''1'', ''true'', ''on''})"
  "coerceValue (Bool y) (Bool b) = Bool b"
  "coerceValue (Bool y) (Num n) = Bool (numEquals n (Finite 1 0))"
  "coerceValue (Bool y) (Obj c) = Bool False"
  by (auto simp add: coerceValue.simps)

lemma coerce_number:
  "\<not> strictEquals (Num m) cv \<Longrightarrow> \<not> isNullish cv \<Longrightarrow>
     coerceValue (Num m) cv =
       Num (if isFalsyNumber (ToNumber cv) then Finite 0 0 else ToNumber cv)"
  by (simp add: coerceValue.simps Let_def)

lemma coerce_object:
  "coerceValue (Obj nested) (Obj section) = Obj (mapOptionValues nested section)"
  by (simp add: coerceValue.simps)

lemma coerce_object_other:
  "\<not> isNullish cv \<Longrightarrow> \<forall>c. cv \<noteq> Obj c \<Longrightarrow> coerceValue (Obj nested) cv = Obj nested"
  by (cases cv) (simp_all add: coerceValue.simps)

lemma StringToNumber_abc: "StringToNumber ''abc'' = NaN"
  by (simp add: StringToNumber_def trimString_def isStrWhiteSpaceChar_def toLowerCase_def
      lowerChar_def StrUnsignedDecimalLiteral_def splitAtFirst_def digitValue_def)

lemma bind_examples:
  "mapOptionValues [(''x'', Str ''1'')] [(''x'', Bool True)] = [(''x'', Str ''true'')]"
  "mapOptionValues [(''x'', Bool True)] [(''x'', Str ''on'')] = [(''x'', Bool True)]"
  "mapOptionValues [(''x'', Num (Finite 0 0))] [(''x'', Str ''abc'')] = [(''x'', Num (Finite 0 0))]"
  by (simp_all add: coerce_string coerce_boolean coerce_number StringToNumber_abc
      BooleanToString_def toLowerCase_def lowerChar_def)

lemma isFalsyNumber_iff: "isFalsyNumber n = (n = NaN \<or> numEquals n (Finite 0 0))"
  by (cases n) (auto simp: Let_def)

lemma coerce_number_fallback:
  "\<not> strictEquals (Num m) cv \<Longrightarrow> \<not> isNullish cv \<Longrightarrow>
     coerceValue (Num m) cv =
       Num (if ToNumber cv = NaN \<or> numEquals (ToNumber cv) (Finite 0 0) then Finite 0 0
            else ToNumber cv)"
  by (simp add: coerce_number isFalsyNumber_iff)

lemma bind_boolean_string:
  "mapOptionValues [(key, Bool y)] [(key, Str s)]
     = [(key, Bool (toLowerCase s \<in> {''1'', ''true'', ''on''}))]"
  by (simp add: coerce_boolean)

lemma bind_number_unparseable:
  assumes "ToNumber cv = NaN" and "\<not> isNullish cv"
  shows "mapOptionValues [(key, Num m)] [(key, cv)] = [(key, Num (Finite 0 0))]"
proof (cases "strictEquals (Num m) cv")
  case True
  with assms show ?thesis by (cases cv) auto
next
  case False
  with assms show ?thesis using coerce_number [of m cv] by auto
qed



subsection \<open>Binding against the snapshot\<close>

lemma map_options_memo:
  "getNormalizedKey className = Inr k \<Longrightarrow> optionsRecord s k = Some a \<Longrightarrow>
     map_options className a h s = (Inr a, h, s)"
  by (simp add: map_options_def)

lemma map_options_bind:
  assumes "getNormalizedKey className = Inr k" and "optionsRecord s k \<noteq> Some a"
      and "getValue s k = Inr (Obj cs)"
  shows "map_options className a h s =
           (Inr a, h(a := mapOptionValues (h a) cs),
            s\<lparr>optionsRecord := (optionsRecord s)(k \<mapsto> a)\<rparr>)"
proof -
  have "getValue (s\<lparr>optionsRecord := (optionsRecord s)(k := None)\<rparr>) k = Inr (Obj cs)"
    using assms(3) by (simp add: getValue_def)
  with assms show ?thesis
    by (simp add: map_options_def Let_def)
qed

lemma map_options_no_section:
  assumes "getNormalizedKey className = Inr k" and "optionsRecord s k \<noteq> Some a"
      and "\<forall>cs. getValue s k \<noteq> Inr (Obj cs)"
  shows "map_options className a h s =
           (Inr a, h, s\<lparr>optionsRecord := (optionsRecord s)(k := None)\<rparr>)"
proof -
  let ?s1 = "s\<lparr>optionsRecord := (optionsRecord s)(k := None)\<rparr>"
  have g: "getValue ?s1 k = getValue s k" by (simp add: getValue_def)
  obtain v where v: "getValue s k = Inr v"
    using getValue_no_error [of s k] by (cases "getValue s k") auto
  with assms(3) have nv: "\<forall>cs. v \<noteq> Obj cs" by simp
  show ?thesis
  proof (cases "optionsRecord s k")
    case None
    then have e: "?s1 = s" by (simp add: fun_upd_idem)
    from None assms(1) v nv show ?thesis
      unfolding e by (cases v) (simp_all add: map_options_def)
  next
    case (Some b)
    with assms(2) have "b \<noteq> a" by simp
    with Some assms(1) v g nv show ?thesis
      by (cases v) (simp_all add: map_options_def)
  qed
qed





subsection \<open>A merge empties the bound options\<close>

lemma pipeline_Next:
  assumes "pipeline outcome requests s = (Next merged, s1)"
  shows "s1 = s\<lparr>cachedConfig := merged, optionsRecord := Map.empty\<rparr>"
proof (cases "forkJoin outcome requests")
  case (Next configs)
  with assms show ?thesis by (auto simp: pipeline_def Let_def)
next
  case (Error e)
  with assms show ?thesis by (simp add: pipeline_def)
next
  case Complete
  with assms show ?thesis by (simp add: pipeline_def)
qed

lemma settle_Next:
  assumes "settle outcome requests s = (Next merged, s')"
  shows "s' = s\<lparr>cachedConfig := merged, optionsRecord := Map.empty, completed := True,
                loading := False, loadSubject := loadSubject s @ [StatusLoaded]\<rparr>"
proof -
  obtain n s1 where p: "pipeline outcome requests s = (n, s1)"
    by (cases "pipeline outcome requests s")
  with assms have n: "n = Next merged" and s': "s' = subscriber n s1"
    by (auto simp: settle_def)
  from p n pipeline_Next have "s1 = s\<lparr>cachedConfig := merged, optionsRecord := Map.empty\<rparr>"
    by simp
  with n s' show ?thesis by (simp add: subscriber_def)
qed



subsection \<open>Further properties\<close>

text \<open>\<^verbatim>\<open>getValue\<close> returns a value for every key and every snapshot: it never throws.\<close>

theorem getValue_never_throws: "\<exists>v. getValue s key = Inr v"
  using getValue_no_error [of s key] by (cases "getValue s key") auto

text \<open>
  Against the snapshot \<^verbatim>\<open>{a: {b: {c: 5}}}\<close>: \<^verbatim>\<open>getValue("a.b.c")\<close> is 5,
  \<^verbatim>\<open>getValue("a.x.c")\<close> is \<^verbatim>\<open>null\<close>, and \<^verbatim>\<open>getValue("a:b")\<close> is the nested
  section.
\<close>

theorem getValue_examples:
  "getValue ((newConfigService [])
      \<lparr>cachedConfig := [(''a'', Obj [(''b'', Obj [(''c'', Num (Finite 5 0))])])]\<rparr>) ''a.b.c''
     = Inr (Num (Finite 5 0))
   \<and> getValue ((newConfigService [])
      \<lparr>cachedConfig := [(''a'', Obj [(''b'', Obj [(''c'', Num (Finite 5 0))])])]\<rparr>) ''a.x.c''
     = Inr Null
   \<and> getValue ((newConfigService [])
      \<lparr>cachedConfig := [(''a'', Obj [(''b'', Obj [(''c'', Num (Finite 5 0))])])]\<rparr>) ''a:b''
     = Inr (Obj [(''c'', Num (Finite 5 0))])"
  by (simp add: getValue_def accessor_def newConfigService_def)

text \<open>
  A service with no provider: \<^verbatim>\<open>forkJoin\<close> of no source completes without a value,
  neither callback of the subscription runs, and the service stays loading, never
  completed, with the one status event \<open>loading\<close>.
\<close>

theorem load_without_providers:
  "loadCycle outcome reLoad (newConfigService [])
     = (Complete, (newConfigService []) \<lparr>loading := True, loadSubject := [StatusLoading]\<rparr>)"
  by (simp add: loadCycle_def load_def loadInternal_def newConfigService_def settle_def
      pipeline_def forkJoin_def subscriber_def)

text \<open>
  \<^verbatim>\<open>map\<close> for a class with no name throws a \<^verbatim>\<open>TypeError\<close> and changes neither the
  store nor the service.
\<close>

theorem map_without_class_name: "map_options [] optionsObj h s = (Inl TypeError, h, s)"
  by (simp add: map_options_def getNormalizedKey_empty)

text \<open>
  The status events of a load cycle: the call emits \<open>loading\<close> unless the service was
  loading already, and the settled subscription emits \<open>loaded\<close> when it receives the
  merged snapshot, and nothing otherwise.
\<close>

theorem load_status_events:
  assumes "load reLoad s = (ForkJoin requests, s1)"
      and "settle outcome requests s1 = (n, s2)"
  shows "loadSubject s1 = loadSubject s @ (if loading s then [] else [StatusLoading])
         \<and> loadSubject s2 = loadSubject s1 @ (case n of Next config \<Rightarrow> [StatusLoaded] | _ \<Rightarrow> [])"
proof -
  define s0 where "s0 = (if \<not> loading s
                   then s\<lparr>loading := True, completed := False,
                          loadSubject := loadSubject s @ [StatusLoading]\<rparr>
                   else s)"
  obtain rs sa where b: "requestFetches reLoad (sortedConfigProviders s0) s0 = (rs, sa)"
    by (cases "requestFetches reLoad (sortedConfigProviders s0) s0")
  from assms(1) have nf: "\<not> (completed s \<and> \<not> reLoad)"
    by (auto simp: load_def loadInternal_def split: if_splits)
  with assms(1) b have "s1 = sa"
    by (simp add: load_def loadInternal_def s0_def Let_def)
  with requestFetches_frame [OF b] have 1: "loadSubject s1 = loadSubject s0" by simp
  have 2: "loadSubject s0 = loadSubject s @ (if loading s then [] else [StatusLoading])"
    by (simp add: s0_def)
  obtain m sp where p: "pipeline outcome requests s1 = (m, sp)"
    by (cases "pipeline outcome requests s1")
  then have "loadSubject sp = loadSubject s1"
    by (cases "forkJoin outcome requests") (auto simp: pipeline_def Let_def)
  moreover from p assms(2) have "n = m" and "s2 = subscriber m sp"
    by (auto simp: settle_def)
  ultimately have "loadSubject s2 = loadSubject s1 @ (case n of Next config \<Rightarrow> [StatusLoaded] | _ \<Rightarrow> [])"
    by (cases m) (simp_all add: subscriber_def)
  with 1 2 show ?thesis by simp
qed

theorem load_status_events_witness:
  "loadSubject (snd (loadCycle (\<lambda>r. Inr [(''a'', Str ''b'')] :: unit + ConfigSection) False
      (newConfigService [\<lparr>name = ''env'', ident = 0\<rparr>])))
     = [StatusLoading, StatusLoaded]"
proof -
  let ?out = "\<lambda>r :: fetch. Inr [(''a'', Str ''b'')] :: unit + ConfigSection"
  let ?s = "newConfigService [\<lparr>name = ''env'', ident = 0\<rparr>]"
  let ?rs = "[(\<lparr>name = ''env'', ident = 0\<rparr>, 0 :: nat)]"
  let ?s1 = "snd (load False ?s)"
  have 1: "load False ?s = (ForkJoin ?rs, ?s1)"
    by (simp add: load_def loadInternal_def newConfigService_def requestFetch_def Let_def)
  have 2: "settle ?out ?rs ?s1 = (Next [(''a'', Str ''b'')], snd (settle ?out ?rs ?s1))"
    by (simp add: settle_def pipeline_def forkJoin_def mergeConfigs_def spread_def assign_def
        Let_def)
  have 3: "loadCycle ?out False ?s = settle ?out ?rs ?s1"
    by (subst loadCycle_def, subst 1, simp)
  from load_status_events [OF 1 2] 3 show ?thesis by (simp add: newConfigService_def)
qed

end
